theory Spec2Isabelle
  imports Main "HOL-Library.Char_ord" "HOL-Library.List_Lexorder" "HOL-Library.Sublist"
begin

section \<open>JavaScript values and IndexedDB keys\<close>

text \<open>
  The result of JavaScript's \<^verbatim>\<open>typeof\<close> operator, as far as \<^verbatim>\<open>idbReadableStream\<close>
  looks at it.
\<close>

datatype js_type = TUndefined | TObject | TBoolean | TNumber | TString | TFunction

text \<open>
  A JavaScript value passed as an argument. The payload \<open>'o\<close> of an object is whatever
  the parameter is documented to hold (an \<^verbatim>\<open>IDBDatabase\<close>, an options object).
\<close>

datatype 'o js =
    JUndefined
  | JNull
  | JBoolean bool
  | JNumber int
  | JString string
  | JFunction
  | JObject 'o

fun typeof :: "'o js \<Rightarrow> js_type" where
  "typeof JUndefined = TUndefined"
| "typeof JNull = TObject"
| "typeof (JBoolean _) = TBoolean"
| "typeof (JNumber _) = TNumber"
| "typeof (JString _) = TString"
| "typeof JFunction = TFunction"
| "typeof (JObject _) = TObject"

text \<open>
  Keys of an object store. IndexedDB orders every number before every string; numbers are
  compared by value and strings code unit by code unit. Numbers are taken to be integers;
  dates, binary keys and array keys (all of them truthy) are left out.
\<close>

datatype idb_key = KNumber int | KString string

instantiation idb_key :: linorder
begin

fun less_eq_idb_key :: "idb_key \<Rightarrow> idb_key \<Rightarrow> bool" where
  "less_eq_idb_key (KNumber a) (KNumber b) = (a \<le> b)"
| "less_eq_idb_key (KNumber a) (KString t) = True"
| "less_eq_idb_key (KString s) (KNumber b) = False"
| "less_eq_idb_key (KString s) (KString t) = (s \<le> t)"

definition less_idb_key :: "idb_key \<Rightarrow> idb_key \<Rightarrow> bool" where
  "less_idb_key x y = (x \<le> y \<and> \<not> y \<le> x)"

instance
proof
  fix x y z :: idb_key
  show "(x < y) = (x \<le> y \<and> \<not> y \<le> x)"
    by (simp add: less_idb_key_def)
  show "x \<le> x"
    by (cases x) simp_all
  show "x \<le> y \<Longrightarrow> y \<le> z \<Longrightarrow> x \<le> z"
    by (cases x; cases y; cases z) auto
  show "x \<le> y \<Longrightarrow> y \<le> x \<Longrightarrow> x = y"
    by (cases x; cases y) auto
  show "x \<le> y \<or> y \<le> x"
    by (cases x; cases y) auto
qed

end

text \<open>JavaScript truthiness of a key: the number zero and the empty string are falsy.\<close>

fun truthy :: "idb_key \<Rightarrow> bool" where
  "truthy (KNumber n) = (n \<noteq> 0)"
| "truthy (KString s) = (s \<noteq> [])"

text \<open>
  Truthiness of a variable that holds a key, \<^verbatim>\<open>null\<close> or \<^verbatim>\<open>undefined\<close>
  (\<open>None\<close> stands for both).
\<close>

fun truthy_opt :: "idb_key option \<Rightarrow> bool" where
  "truthy_opt None = False"
| "truthy_opt (Some k) = truthy k"

section \<open>Options, ranges and the store handle\<close>

datatype direction = Next | NextUnique | Prev | PrevUnique

text \<open>
  The object given as \<^verbatim>\<open>opts.range\<close>: the four properties that \<^verbatim>\<open>startCursor\<close> reads.
  An absent bound is \<^verbatim>\<open>undefined\<close>.
\<close>

record key_range =
  lower :: "idb_key option"
  upper :: "idb_key option"
  lowerOpen :: bool
  upperOpen :: bool

record options =
  range_opt :: "key_range option"
  direction :: "direction option"
  reopenOnTimeout :: "bool option"

text \<open>The empty object \<^verbatim>\<open>{}\<close>, read as a range and as options.\<close>

definition empty_range :: key_range where
  "empty_range = \<lparr>lower = None, upper = None, lowerOpen = False, upperOpen = False\<rparr>"

definition empty_options :: options where
  "empty_options = \<lparr>range_opt = None, direction = None, reopenOnTimeout = None\<rparr>"

text \<open>
  What the ambient \<^verbatim>\<open>IDBKeyRange\<close> constructors return. They are pure constructors here;
  the validation that a platform performs on the bounds is not part of the source.
\<close>

datatype idb_key_range =
    Bound idb_key idb_key bool bool
  | LowerBound idb_key bool
  | UpperBound idb_key bool

fun above :: "idb_key \<Rightarrow> bool \<Rightarrow> idb_key \<Rightarrow> bool" where
  "above l lopen k = (if lopen then l < k else l \<le> k)"

fun below :: "idb_key \<Rightarrow> bool \<Rightarrow> idb_key \<Rightarrow> bool" where
  "below u uopen k = (if uopen then k < u else k \<le> u)"

text \<open>Membership of a key in the range handed to \<^verbatim>\<open>openCursor\<close> (\<open>None\<close>: no range).\<close>

fun in_range :: "idb_key_range option \<Rightarrow> idb_key \<Rightarrow> bool" where
  "in_range None k = True"
| "in_range (Some (Bound l u lopen uopen)) k = (above l lopen k \<and> below u uopen k)"
| "in_range (Some (LowerBound l lopen)) k = above l lopen k"
| "in_range (Some (UpperBound u uopen)) k = below u uopen k"

record 'v entry =
  key :: idb_key
  val :: 'v

text \<open>
  The database handle: for every object store name the records of that store, in
  ascending key order. It is the same at every transaction (a stable snapshot).
\<close>

type_synonym 'v database = "string \<Rightarrow> 'v entry list"

definition store_ok :: "'v entry list \<Rightarrow> bool" where
  "store_ok st = sorted_wrt (<) (map key st)"

text \<open>
  \<^verbatim>\<open>store.openCursor(keyRange, direction)\<close>: the records the cursor delivers, one per
  success event. Keys of an object store are unique, so the unique directions visit the
  same records. An absent direction is the platform default \<^verbatim>\<open>'next'\<close>.
\<close>

fun backward :: "direction option \<Rightarrow> bool" where
  "backward (Some Prev) = True"
| "backward (Some PrevUnique) = True"
| "backward _ = False"

definition openCursor :: "'v entry list \<Rightarrow> idb_key_range option \<Rightarrow> direction option \<Rightarrow> 'v entry list" where
  "openCursor st kr dir =
     (let rs = filter (\<lambda>r. in_range kr (key r)) st
      in if backward dir then rev rs else rs)"

section \<open>The adapter\<close>

datatype js_error = TypeError string | DOMException string

text \<open>The \<^verbatim>\<open>name\<close> property of an error.\<close>

fun err_name :: "js_error \<Rightarrow> string" where
  "err_name (TypeError msg) = ''TypeError''"
| "err_name (DOMException n) = n"

text \<open>Calls made on the store handle and on what it returns.\<close>

datatype db_call =
    Transaction string
  | OpenCursor "idb_key_range option" "direction option"
  | Continue

text \<open>
  Calls made on the transform stream, that is, what goes downstream: \<^verbatim>\<open>write\<close>,
  \<^verbatim>\<open>emit('error', err)\<close> (a listener for the error event is taken to be attached) and
  \<^verbatim>\<open>end\<close>.
\<close>

datatype 'v stream_call = Write "'v entry" | EmitError js_error | End

text \<open>What the adapter has registered a callback for.\<close>

datatype waiting = AwaitSuccess | AwaitDrain | Idle

text \<open>
  The variables captured by the closures of \<^verbatim>\<open>idbReadableStream\<close>, together with the
  state of its collaborators: \<open>pending\<close> holds the records the active cursor has still to
  deliver, \<open>calls\<close> and \<open>out\<close> log the calls made on the store handle and on the stream.
\<close>

record 'v adapter =
  db :: "'v database"
  storeName :: string
  opts :: options
  lastIteratedKey :: "idb_key option"
  cursorsOpened :: nat
  pending :: "'v entry list"
  waiting :: waiting
  calls :: "db_call list"
  out :: "'v stream_call list"

text \<open>\<^verbatim>\<open>xtend({ reopenOnTimeout: true }, opts)\<close> (line 57).\<close>

definition xtend_defaults :: "options \<Rightarrow> options" where
  "xtend_defaults cfg =
     (case reopenOnTimeout cfg of
        None \<Rightarrow> cfg\<lparr>reopenOnTimeout := Some True\<rparr>
      | Some b \<Rightarrow> cfg)"

text \<open>
  Lines 65 to 92 of \<^verbatim>\<open>startCursor\<close>: the key range for this opening, from the options
  and \<^verbatim>\<open>lastIteratedKey\<close>.
\<close>

definition startCursor_keyRange :: "options \<Rightarrow> idb_key option \<Rightarrow> idb_key_range option" where
  "startCursor_keyRange cfg lastKey =
     (let dir = (case direction cfg of None \<Rightarrow> Next | Some d \<Rightarrow> d);
          rng = (case range_opt cfg of None \<Rightarrow> empty_range | Some r \<Rightarrow> r);
          (lo, up, lopen, uopen) =
            (if truthy_opt lastKey
             then (if dir = Next
                   then (lastKey, upper rng, True, upperOpen rng)
                   else (lower rng, lastKey, lowerOpen rng, True))
             else (lower rng, upper rng, lowerOpen rng, upperOpen rng))
      in if truthy_opt lo \<and> truthy_opt up then Some (Bound (the lo) (the up) lopen uopen)
         else if truthy_opt lo then Some (LowerBound (the lo) lopen)
         else if truthy_opt up then Some (UpperBound (the up) uopen)
         else None)"

text \<open>
  Lines 94 to 98 of \<^verbatim>\<open>startCursor\<close>, on a database handle that is not \<^verbatim>\<open>null\<close>: a new
  transaction, a new cursor over the key range, and the success handler registered.
\<close>

definition startCursor :: "'v adapter \<Rightarrow> 'v adapter" where
  "startCursor s =
     (let keyRange = startCursor_keyRange (opts s) (lastIteratedKey s)
      in s\<lparr>cursorsOpened := Suc (cursorsOpened s),
           calls := calls s @ [Transaction (storeName s), OpenCursor keyRange (direction (opts s))],
           pending := openCursor (db s (storeName s)) keyRange (direction (opts s)),
           waiting := AwaitSuccess\<rparr>)"

text \<open>The closure variables as lines 57 to 62 leave them, before the first cursor is opened.\<close>

definition initial :: "'v database \<Rightarrow> string \<Rightarrow> options \<Rightarrow> 'v adapter" where
  "initial d n cfg =
     \<lparr>db = d, storeName = n, opts = cfg, lastIteratedKey = None, cursorsOpened = 0,
      pending = [], waiting = Idle, calls = [], out = []\<rparr>"

text \<open>
  The constructor. It either throws (\<open>Inl\<close>, with the calls made on the store handle
  before the throw) or returns the stream with its first cursor opened. The variable
  \<^verbatim>\<open>db\<close> is never assigned again, so the property access \<^verbatim>\<open>db.transaction\<close> of line 94
  can fail only in the first call of \<^verbatim>\<open>startCursor\<close>, which the constructor makes.
\<close>

definition idbReadableStream ::
  "'v database js \<Rightarrow> unit js \<Rightarrow> options js \<Rightarrow> (js_error \<times> db_call list) + 'v adapter" where
  "idbReadableStream dbArg storeNameArg optsArg =
     (if typeof dbArg \<noteq> TObject then Inl (TypeError ''db must be an object'', [])
      else if typeof storeNameArg \<noteq> TString then Inl (TypeError ''storeName must be a string'', [])
      else
        let optsArg = (case optsArg of JUndefined \<Rightarrow> JObject empty_options
                                     | JNull \<Rightarrow> JObject empty_options
                                     | other \<Rightarrow> other)
        in if typeof optsArg \<noteq> TObject then Inl (TypeError ''opts must be an object'', [])
           else
             (case (dbArg, storeNameArg, optsArg) of
                (JObject d, JString n, JObject cfg) \<Rightarrow>
                  Inr (startCursor (initial d n (xtend_defaults cfg)))
              | other \<Rightarrow>
                  Inl (TypeError ''Cannot read property transaction of null'', [])))"

subsection \<open>Event handlers\<close>

text \<open>
  What \<^verbatim>\<open>cursor.continue()\<close> does when it is called: it either registers the next
  success event or throws. Which of the two is up to the platform (the transaction may
  have become inactive since the cursor was opened).
\<close>

datatype continue_outcome = Advanced | Throws js_error

text \<open>
  The events delivered to the handlers that \<^verbatim>\<open>startCursor\<close> registers. A success event
  comes with the answer of \<^verbatim>\<open>transformer.write\<close> (false: the buffer is at or over its
  high-water mark) and with the outcome of the call of \<^verbatim>\<open>continue\<close>, should the handler
  make one; a drain event with the outcome of \<^verbatim>\<open>continue\<close>; an abort or error event of
  a transaction with the value of \<^verbatim>\<open>tx.error\<close>.
\<close>

datatype event =
    OnSuccess bool continue_outcome
  | OnDrain continue_outcome
  | OnAbort js_error
  | OnError js_error

text \<open>\<^verbatim>\<open>proceed(cursor)\<close>, lines 100 to 110.\<close>

definition proceed :: "continue_outcome \<Rightarrow> 'v adapter \<Rightarrow> 'v adapter" where
  "proceed c s =
     (let s = s\<lparr>calls := calls s @ [Continue]\<rparr>
      in case c of
           Advanced \<Rightarrow> s\<lparr>waiting := AwaitSuccess\<rparr>
         | Throws err \<Rightarrow>
             if err_name err = ''TransactionInactiveError'' \<and> reopenOnTimeout (opts s) = Some True
             then startCursor s
             else s\<lparr>out := out s @ [EmitError err], waiting := Idle\<rparr>)"

text \<open>
  \<^verbatim>\<open>req.onsuccess\<close>, lines 112 to 123. The head of \<open>pending\<close> is \<^verbatim>\<open>req.result\<close>; an
  empty list is the \<^verbatim>\<open>null\<close> result of an exhausted cursor.
\<close>

definition onsuccess :: "bool \<Rightarrow> continue_outcome \<Rightarrow> 'v adapter \<Rightarrow> 'v adapter" where
  "onsuccess accepted c s =
     (case pending s of
        [] \<Rightarrow> s\<lparr>out := out s @ [End], waiting := Idle\<rparr>
      | r # rest \<Rightarrow>
          let s = s\<lparr>lastIteratedKey := Some (key r), out := out s @ [Write r], pending := rest\<rparr>
          in if accepted then proceed c s else s\<lparr>waiting := AwaitDrain\<rparr>)"

text \<open>\<^verbatim>\<open>tx.onabort\<close> and \<^verbatim>\<open>tx.onerror\<close>, lines 125 to 130.\<close>

definition onabort :: "js_error \<Rightarrow> 'v adapter \<Rightarrow> 'v adapter" where
  "onabort txError s = s\<lparr>out := out s @ [EmitError txError]\<rparr>"

definition onerror :: "js_error \<Rightarrow> 'v adapter \<Rightarrow> 'v adapter" where
  "onerror txError s = s\<lparr>out := out s @ [EmitError txError]\<rparr>"

text \<open>
  One event. A success event finds its handler only while a request is outstanding, a
  drain event only while the listener registered by \<^verbatim>\<open>once\<close> is still there.
\<close>

fun step :: "'v adapter \<Rightarrow> event \<Rightarrow> 'v adapter" where
  "step s (OnSuccess accepted c) = (if waiting s = AwaitSuccess then onsuccess accepted c s else s)"
| "step s (OnDrain c) = (if waiting s = AwaitDrain then proceed c s else s)"
| "step s (OnAbort e) = onabort e s"
| "step s (OnError e) = onerror e s"

definition run :: "'v adapter \<Rightarrow> event list \<Rightarrow> 'v adapter" where
  "run s evs = foldl step s evs"

subsection \<open>Observations on a run\<close>

text \<open>The records written downstream, the error signals, and the calls of \<^verbatim>\<open>continue\<close>.\<close>

fun writes :: "'v stream_call list \<Rightarrow> 'v entry list" where
  "writes [] = []"
| "writes (Write r # cs) = r # writes cs"
| "writes (c # cs) = writes cs"

fun errors :: "'v stream_call list \<Rightarrow> js_error list" where
  "errors [] = []"
| "errors (EmitError e # cs) = e # errors cs"
| "errors (c # cs) = errors cs"

definition advances :: "'v adapter \<Rightarrow> nat" where
  "advances s = length (filter (\<lambda>c. c = Continue) (calls s))"

fun is_drain :: "event \<Rightarrow> bool" where
  "is_drain (OnDrain c) = True"
| "is_drain e = False"

fun is_tx_report :: "event \<Rightarrow> bool" where
  "is_tx_report (OnAbort e) = True"
| "is_tx_report (OnError e) = True"
| "is_tx_report e = False"

text \<open>
  Events without any failure: every call of \<^verbatim>\<open>continue\<close> advances the cursor, and no
  transaction reports an abort or an error.
\<close>

fun quiet :: "event \<Rightarrow> bool" where
  "quiet (OnSuccess accepted Advanced) = True"
| "quiet (OnDrain Advanced) = True"
| "quiet ev = False"




subsection \<open>The specification's reading of a range, and example stores\<close>

text \<open>
  Membership of a key in the range as it is configured, in the words of the
  specification: a bound that is given restricts the keys, whatever its value.
\<close>

definition spec_in_range :: "key_range option \<Rightarrow> idb_key \<Rightarrow> bool" where
  "spec_in_range rng k =
     (case rng of
        None \<Rightarrow> True
      | Some r \<Rightarrow>
          (case lower r of None \<Rightarrow> True | Some l \<Rightarrow> above l (lowerOpen r) k)
          \<and> (case upper r of None \<Rightarrow> True | Some u \<Rightarrow> below u (upperOpen r) k))"

text \<open>
  The records of the store that lie in the configured range, in the order of the
  configured direction: what the specification expects the stream to deliver.
\<close>

definition spec_expected :: "'v entry list \<Rightarrow> options \<Rightarrow> 'v entry list" where
  "spec_expected st cfg =
     (let rs = filter (\<lambda>r. spec_in_range (range_opt cfg) (key r)) st
      in if backward (direction cfg) then rev rs else rs)"

text \<open>
  The configured bounds that are given are truthy (neither the number 0 nor the empty
  string).
\<close>

definition truthy_bounds :: "options \<Rightarrow> bool" where
  "truthy_bounds cfg =
     (case range_opt cfg of
        None \<Rightarrow> True
      | Some r \<Rightarrow> (case lower r of None \<Rightarrow> True | Some l \<Rightarrow> truthy l)
                \<and> (case upper r of None \<Rightarrow> True | Some u \<Rightarrow> truthy u))"

text \<open>
  The state of an adapter that has neither lost nor repeated a record of the first
  cursor: what has been written is an initial part of what the first cursor delivers;
  while the adapter waits, the active cursor holds exactly the remaining records; the
  stream has ended only if everything was written; and \<^verbatim>\<open>lastIteratedKey\<close> is the key
  written last.
\<close>

definition on_track :: "'v entry list \<Rightarrow> options \<Rightarrow> 'v adapter \<Rightarrow> bool" where
  "on_track st cfg s =
     (db s (storeName s) = st \<and> opts s = cfg
      \<and> prefix (writes (out s)) (openCursor st (startCursor_keyRange cfg None) (direction cfg))
      \<and> (waiting s \<noteq> Idle \<longrightarrow>
            writes (out s) @ pending s = openCursor st (startCursor_keyRange cfg None) (direction cfg))
      \<and> (End \<in> set (out s) \<longrightarrow>
            writes (out s) = openCursor st (startCursor_keyRange cfg None) (direction cfg))
      \<and> lastIteratedKey s = (if writes (out s) = [] then None else Some (key (last (writes (out s))))))"

text \<open>Whether the range handed to \<^verbatim>\<open>openCursor\<close> restricts the keys from below, from above.\<close>

fun lower_bound :: "idb_key_range option \<Rightarrow> (idb_key \<times> bool) option" where
  "lower_bound None = None"
| "lower_bound (Some (Bound l u lopen uopen)) = Some (l, lopen)"
| "lower_bound (Some (LowerBound l lopen)) = Some (l, lopen)"
| "lower_bound (Some (UpperBound u uopen)) = None"

fun upper_bound :: "idb_key_range option \<Rightarrow> (idb_key \<times> bool) option" where
  "upper_bound None = None"
| "upper_bound (Some (Bound l u lopen uopen)) = Some (u, uopen)"
| "upper_bound (Some (LowerBound l lopen)) = None"
| "upper_bound (Some (UpperBound u uopen)) = Some (u, uopen)"

text \<open>
  A database whose object store \<^verbatim>\<open>items\<close> holds the keys 1 to 5, and one whose object
  store \<^verbatim>\<open>items\<close> holds the keys 0 and 1.
\<close>

definition items :: "(int \<Rightarrow> 'v) \<Rightarrow> 'v database" where
  "items f = (\<lambda>n. if n = ''items''
                   then map (\<lambda>i. \<lparr>key = KNumber i, val = f i\<rparr>) [1, 2, 3, 4, 5] else [])"

definition items_from_zero :: "(int \<Rightarrow> 'v) \<Rightarrow> 'v database" where
  "items_from_zero f = (\<lambda>n. if n = ''items''
                   then map (\<lambda>i. \<lparr>key = KNumber i, val = f i\<rparr>) [0, 1] else [])"

definition inactive :: js_error where
  "inactive = DOMException ''TransactionInactiveError''"

section \<open>Basic facts about runs\<close>


lemma run_Nil: "run s [] = s"
  by (simp add: run_def)

lemma run_Cons: "run s (ev # evs) = run (step s ev) evs"
  by (simp add: run_def)


lemma idle_step: "waiting s = Idle \<Longrightarrow> \<not> is_tx_report ev \<Longrightarrow> step s ev = s"
  by (cases ev) simp_all

lemma tx_report_step:
  "is_tx_report ev \<Longrightarrow> \<exists>e. step s ev = s\<lparr>out := out s @ [EmitError e]\<rparr>"
  by (cases ev) (auto simp: onabort_def onerror_def)

lemma writes_append: "writes (xs @ ys) = writes xs @ writes ys"
  by (induction xs rule: writes.induct) simp_all

lemma errors_append: "errors (xs @ ys) = errors xs @ errors ys"
  by (induction xs rule: errors.induct) simp_all



lemma await_drain_run:
  "waiting s = AwaitDrain \<Longrightarrow> list_all (\<lambda>ev. \<not> is_drain ev) evs \<Longrightarrow>
     waiting (run s evs) = AwaitDrain \<and> calls (run s evs) = calls s
     \<and> writes (out (run s evs)) = writes (out s) \<and> pending (run s evs) = pending s"
proof (induction evs arbitrary: s)
  case Nil
  then show ?case by (simp add: run_Nil)
next
  case (Cons ev evs)
  have nd: "\<not> is_drain ev" and rest: "list_all (\<lambda>ev. \<not> is_drain ev) evs"
    using Cons.prems(2) by simp_all
  have st: "waiting (step s ev) = AwaitDrain \<and> calls (step s ev) = calls s
            \<and> writes (out (step s ev)) = writes (out s) \<and> pending (step s ev) = pending s"
    using Cons.prems(1) nd by (cases ev) (simp_all add: onabort_def onerror_def writes_append)
  from Cons.IH [OF _ rest, of "step s ev"] st show ?case
    by (simp add: run_Cons)
qed

lemma advances_proceed: "advances (proceed c s) = Suc (advances s)"
  by (cases c) (simp_all add: proceed_def startCursor_def advances_def Let_def)

lemma drains_after_drain:
  "waiting s \<noteq> AwaitDrain \<Longrightarrow> list_all is_drain evs \<Longrightarrow> run s evs = s"
proof (induction evs arbitrary: s)
  case Nil
  then show ?case by (simp add: run_Nil)
next
  case (Cons ev evs)
  then have "step s ev = s" by (cases ev) simp_all
  then show ?case using Cons by (simp add: run_Cons)
qed

lemma waiting_proceed: "waiting (proceed c s) \<noteq> AwaitDrain"
  by (cases c) (simp_all add: proceed_def startCursor_def Let_def)





lemma idle_run_errors:
  "waiting s = Idle \<Longrightarrow> list_all (\<lambda>ev. \<not> is_tx_report ev) evs \<Longrightarrow> run s evs = s"
proof (induction evs arbitrary: s)
  case Nil
  then show ?case by (simp add: run_Nil)
next
  case (Cons ev evs)
  then have "step s ev = s" by (simp add: idle_step)
  then show ?case using Cons by (simp add: run_Cons)
qed

lemma quiet_not_tx_report: "quiet ev \<Longrightarrow> \<not> is_tx_report ev"
  by (cases ev) simp_all

lemma quiet_step:
  assumes "quiet ev" and "waiting s \<noteq> Idle" and "out s @ map Write (pending s) = F"
  shows "cursorsOpened (step s ev) = cursorsOpened s
       \<and> (if waiting (step s ev) = Idle then out (step s ev) = F @ [End]
          else out (step s ev) @ map Write (pending (step s ev)) = F)"
proof (cases ev)
  case (OnSuccess accepted c)
  then have c: "c = Advanced" using assms(1) by (cases c) simp_all
  show ?thesis
    using assms(2,3) by (cases "pending s") (auto simp: OnSuccess c onsuccess_def proceed_def Let_def)
next
  case (OnDrain c)
  then have c: "c = Advanced" using assms(1) by (cases c) simp_all
  show ?thesis using assms(2,3) by (auto simp: OnDrain c proceed_def Let_def)
next
  case (OnAbort e)
  then show ?thesis using assms(1) by simp
next
  case (OnError e)
  then show ?thesis using assms(1) by simp
qed

lemma quiet_run:
  assumes "list_all quiet evs" and "waiting s \<noteq> Idle" and "out s @ map Write (pending s) = F"
  shows "cursorsOpened (run s evs) = cursorsOpened s
       \<and> (if waiting (run s evs) = Idle then out (run s evs) = F @ [End]
          else out (run s evs) @ map Write (pending (run s evs)) = F)"
  using assms
proof (induction evs arbitrary: s)
  case Nil
  then show ?case by (simp add: run_Nil)
next
  case (Cons ev evs)
  have q: "quiet ev" and qs: "list_all quiet evs" using Cons.prems(1) by simp_all
  note st = quiet_step [OF q Cons.prems(2,3)]
  show ?case
  proof (cases "waiting (step s ev) = Idle")
    case True
    have "list_all (\<lambda>ev. \<not> is_tx_report ev) evs"
      using qs by (induction evs) (simp_all add: quiet_not_tx_report)
    then have "run (step s ev) evs = step s ev"
      using True idle_run_errors by blast
    then show ?thesis using st True by (simp add: run_Cons)
  next
    case False
    then have "out (step s ev) @ map Write (pending (step s ev)) = F" using st by simp
    from Cons.IH [OF qs False this] st show ?thesis by (simp add: run_Cons)
  qed
qed

lemmas run_simps = run_def onsuccess_def proceed_def startCursor_def startCursor_keyRange_def
      openCursor_def xtend_defaults_def empty_options_def empty_range_def initial_def inactive_def
      onabort_def onerror_def idbReadableStream_def Let_def less_idb_key_def

section \<open>Construction\<close>

text \<open>
  C7. If \<^verbatim>\<open>typeof db\<close> is not \<^verbatim>\<open>'object'\<close> the constructor throws the error
  \<^verbatim>\<open>db must be an object\<close>; otherwise, if \<^verbatim>\<open>typeof storeName\<close> is not \<^verbatim>\<open>'string'\<close>,
  it throws the error \<^verbatim>\<open>storeName must be a string\<close>. This is so whatever the options
  are; no stream is returned, and no call has been made on the store handle before the
  throw, so no transaction has been opened. A handle that is no object at all, \<^verbatim>\<open>null\<close>
  included, always makes the constructor throw a type error before any such call.
\<close>

theorem construction_rejects_invalid_arguments:
  "(typeof dbArg \<noteq> TObject \<longrightarrow>
      idbReadableStream dbArg storeNameArg optsArg = Inl (TypeError ''db must be an object'', []))
   \<and> (typeof dbArg = TObject \<and> typeof storeNameArg \<noteq> TString \<longrightarrow>
      idbReadableStream dbArg storeNameArg optsArg = Inl (TypeError ''storeName must be a string'', []))
   \<and> (dbArg = JNull \<or> typeof dbArg \<noteq> TObject \<or> typeof storeNameArg \<noteq> TString \<longrightarrow>
      (\<exists>msg. idbReadableStream dbArg storeNameArg optsArg = Inl (TypeError msg, [])))"
  by (auto simp: idbReadableStream_def Let_def split: js.splits)

theorem construction_rejects_invalid_arguments_witness:
  "typeof (JNumber 7 :: unit database js) \<noteq> TObject
   \<and> idbReadableStream (JNumber 7 :: unit database js) (JString ''items'') JUndefined
       = Inl (TypeError ''db must be an object'', [])
   \<and> typeof (JObject (\<lambda>n. []) :: unit database js) = TObject
   \<and> typeof (JNumber 3 :: unit js) \<noteq> TString
   \<and> idbReadableStream (JObject (\<lambda>n. []) :: unit database js) (JNumber 3) JUndefined
       = Inl (TypeError ''storeName must be a string'', [])
   \<and> (\<exists>msg. idbReadableStream (JNull :: unit database js) (JString ''items'') JUndefined
              = Inl (TypeError msg, []))"
  using construction_rejects_invalid_arguments
          [of "JNumber 7 :: unit database js" "JString ''items''" JUndefined]
        construction_rejects_invalid_arguments
          [of "JObject (\<lambda>n. []) :: unit database js" "JNumber 3" JUndefined]
        construction_rejects_invalid_arguments
          [of "JNull :: unit database js" "JString ''items''" JUndefined]
  by simp

text \<open>
  C10. A \<^verbatim>\<open>null\<close> store handle passes the check of line 44, since \<^verbatim>\<open>typeof null\<close> is
  \<^verbatim>\<open>'object'\<close>: the error \<^verbatim>\<open>db must be an object\<close> is thrown exactly for the handles whose
  \<^verbatim>\<open>typeof\<close> is not \<^verbatim>\<open>'object'\<close>. With a string as store name and options that pass
  their check, a \<^verbatim>\<open>null\<close> handle fails instead at the property access
  \<^verbatim>\<open>db.transaction\<close> of line 94, in the first call of \<^verbatim>\<open>startCursor\<close>.
\<close>

theorem null_store_handle_passes_validation:
  assumes "typeof optsArg = TObject \<or> typeof optsArg = TUndefined"
  shows "typeof (JNull :: 'v database js) = TObject
      \<and> (idbReadableStream (JNull :: 'v database js) (JString n) optsArg
           = Inl (TypeError ''Cannot read property transaction of null'', []))
      \<and> ((idbReadableStream dbArg storeNameArg optsArg' = Inl (TypeError ''db must be an object'', []) :: bool)
           = (typeof (dbArg :: 'v database js) \<noteq> TObject))"
proof -
  have a: "idbReadableStream (JNull :: 'v database js) (JString n) optsArg
           = Inl (TypeError ''Cannot read property transaction of null'', [])"
    using assms by (cases optsArg) (simp_all add: idbReadableStream_def)
  have b: "(idbReadableStream dbArg storeNameArg optsArg' = Inl (TypeError ''db must be an object'', []))
           = (typeof dbArg \<noteq> TObject)"
    by (auto simp: idbReadableStream_def Let_def split: js.splits)
  show ?thesis using a b by simp
qed

theorem null_store_handle_passes_validation_witness:
  "typeof (JUndefined :: options js) = TUndefined
   \<and> idbReadableStream (JNull :: unit database js) (JString ''items'') JUndefined
       = Inl (TypeError ''Cannot read property transaction of null'', [])
   \<and> idbReadableStream (JBoolean True :: unit database js) (JString ''items'') JUndefined
       = Inl (TypeError ''db must be an object'', [])"
  using null_store_handle_passes_validation
          [where optsArg = JUndefined and n = "''items''"
             and dbArg = "JBoolean True :: unit database js"
             and storeNameArg = "JString ''items''" and optsArg' = JUndefined]
  by simp

section \<open>The key range of an opening\<close>

text \<open>
  C9. A last iterated key that is falsy (the number 0, the empty string) does not narrow
  the range: \<^verbatim>\<open>startCursor\<close> computes the key range of the first opening and opens the
  same cursor again. A configured bound that is falsy is treated as absent: the key range
  is the one computed for the configuration without that bound, and on a first opening it
  has no bound on that side.
\<close>

theorem falsy_keys_are_treated_as_absent:
  assumes "\<not> truthy k"
  shows "startCursor_keyRange cfg (Some k) = startCursor_keyRange cfg None
       \<and> startCursor (s\<lparr>lastIteratedKey := Some k\<rparr>)
           = (startCursor (s\<lparr>lastIteratedKey := None\<rparr>))\<lparr>lastIteratedKey := Some k\<rparr>
       \<and> (if range_opt cfg = Some r \<and> lower r = Some k
          then startCursor_keyRange cfg lastKey
                 = startCursor_keyRange (cfg\<lparr>range_opt := Some (r\<lparr>lower := None\<rparr>)\<rparr>) lastKey
               \<and> lower_bound (startCursor_keyRange cfg None) = None
          else True)
       \<and> (if range_opt cfg = Some r \<and> upper r = Some k
          then startCursor_keyRange cfg lastKey
                 = startCursor_keyRange (cfg\<lparr>range_opt := Some (r\<lparr>upper := None\<rparr>)\<rparr>) lastKey
               \<and> upper_bound (startCursor_keyRange cfg None) = None
          else True)"
  using assms by (auto simp: startCursor_keyRange_def startCursor_def Let_def)

theorem falsy_keys_are_treated_as_absent_witness:
  "\<not> truthy (KNumber 0) \<and> \<not> truthy (KString [])
   \<and> startCursor_keyRange
         \<lparr>range_opt = Some \<lparr>lower = Some (KNumber 0), upper = Some (KNumber 9),
                             lowerOpen = True, upperOpen = False\<rparr>,
          direction = Some Next, reopenOnTimeout = Some True\<rparr> (Some (KNumber 0))
       = Some (UpperBound (KNumber 9) False)
   \<and> startCursor_keyRange
         \<lparr>range_opt = Some \<lparr>lower = Some (KNumber 0), upper = Some (KNumber 9),
                             lowerOpen = True, upperOpen = False\<rparr>,
          direction = Some Next, reopenOnTimeout = Some True\<rparr> None
       = Some (UpperBound (KNumber 9) False)
   \<and> startCursor_keyRange
         \<lparr>range_opt = Some \<lparr>lower = Some (KNumber 3), upper = Some (KString []),
                             lowerOpen = False, upperOpen = True\<rparr>,
          direction = Some Prev, reopenOnTimeout = Some True\<rparr> None
       = Some (LowerBound (KNumber 3) False)"
  using falsy_keys_are_treated_as_absent
     [where k = "KNumber 0"
        and cfg = "\<lparr>range_opt = Some \<lparr>lower = Some (KNumber 0), upper = Some (KNumber 9),
                                      lowerOpen = True, upperOpen = False\<rparr>,
                   direction = Some Next, reopenOnTimeout = Some True\<rparr>"
        and r = "\<lparr>lower = Some (KNumber 0), upper = Some (KNumber 9),
                  lowerOpen = True, upperOpen = False\<rparr>"
        and lastKey = None]
    falsy_keys_are_treated_as_absent
     [where k = "KString []"
        and cfg = "\<lparr>range_opt = Some \<lparr>lower = Some (KNumber 3), upper = Some (KString []),
                                      lowerOpen = False, upperOpen = True\<rparr>,
                   direction = Some Prev, reopenOnTimeout = Some True\<rparr>"
        and r = "\<lparr>lower = Some (KNumber 3), upper = Some (KString []),
                  lowerOpen = False, upperOpen = True\<rparr>"
        and lastKey = None]
  by (simp add: startCursor_keyRange_def)

text \<open>
  For a truthy last key and the directions \<^verbatim>\<open>'next'\<close> (also by default), \<^verbatim>\<open>'prev'\<close> and
  \<^verbatim>\<open>'prevunique'\<close> the range is narrowed as intended: the bound on the side that is being
  consumed becomes the last key, open, and the other side stays as configured.
\<close>

lemma reopen_narrows_range_next_prev:
  assumes "truthy k"
  shows "(if direction cfg = None \<or> direction cfg = Some Next
          then lower_bound (startCursor_keyRange cfg (Some k)) = Some (k, True)
             \<and> upper_bound (startCursor_keyRange cfg (Some k)) = upper_bound (startCursor_keyRange cfg None)
          else True)
       \<and> (if direction cfg = Some Prev \<or> direction cfg = Some PrevUnique
          then upper_bound (startCursor_keyRange cfg (Some k)) = Some (k, True)
             \<and> lower_bound (startCursor_keyRange cfg (Some k)) = lower_bound (startCursor_keyRange cfg None)
          else True)"
  using assms by (auto simp: startCursor_keyRange_def Let_def)

text \<open>
  C2. Under \<^verbatim>\<open>'nextunique'\<close> the test \<^verbatim>\<open>direction === 'next'\<close> of line 77 fails, and the
  branch written for the backward directions is taken: after the keys 1 and 2 have been
  delivered, the re-opened cursor has no lower bound and the open upper bound 2.
\<close>

theorem nextunique_reopen_narrows_the_wrong_side:
  "startCursor_keyRange (empty_options\<lparr>direction := Some NextUnique\<rparr>) (Some (KNumber 2))
     = Some (UpperBound (KNumber 2) True)
   \<and> lower_bound (startCursor_keyRange (empty_options\<lparr>direction := Some NextUnique\<rparr>) (Some (KNumber 2))) = None
   \<and> (\<exists>start. idbReadableStream (JObject (items f)) (JString ''items'')
               (JObject (empty_options\<lparr>direction := Some NextUnique\<rparr>)) = Inr start
         \<and> calls (run start [OnSuccess True Advanced, OnSuccess False Advanced, OnDrain (Throws inactive)])
             = [Transaction ''items'', OpenCursor None (Some NextUnique), Continue, Continue,
                Transaction ''items'', OpenCursor (Some (UpperBound (KNumber 2) True)) (Some NextUnique)])"
  by (simp add: run_simps items_def)

section \<open>A run without timeouts\<close>

text \<open>
  C8. The object store \<^verbatim>\<open>items\<close> holds the keys 1 to 5, no range is configured and the
  direction is \<^verbatim>\<open>'next'\<close> (given or by default). Whatever the buffer answers and whenever
  it drains, as long as no advance fails and no transaction reports a failure, exactly one
  cursor is opened, what has gone downstream is an initial part of the records 1 to 5
  followed by the end signal, and it is all of this once the stream has stopped waiting.
  Six success events with every write accepted complete the run.
\<close>

theorem five_items_end_to_end:
  assumes "range_opt cfg = None" and "direction cfg = None \<or> direction cfg = Some Next"
    and "idbReadableStream (JObject (items f)) (JString ''items'') (JObject cfg) = Inr start"
    and "list_all quiet evs"
  shows "cursorsOpened (run start evs) = 1
       \<and> prefix (out (run start evs))
            [Write \<lparr>key = KNumber 1, val = f 1\<rparr>, Write \<lparr>key = KNumber 2, val = f 2\<rparr>,
             Write \<lparr>key = KNumber 3, val = f 3\<rparr>, Write \<lparr>key = KNumber 4, val = f 4\<rparr>,
             Write \<lparr>key = KNumber 5, val = f 5\<rparr>, End]
       \<and> (waiting (run start evs) = Idle \<longrightarrow>
            out (run start evs) =
            [Write \<lparr>key = KNumber 1, val = f 1\<rparr>, Write \<lparr>key = KNumber 2, val = f 2\<rparr>,
             Write \<lparr>key = KNumber 3, val = f 3\<rparr>, Write \<lparr>key = KNumber 4, val = f 4\<rparr>,
             Write \<lparr>key = KNumber 5, val = f 5\<rparr>, End])
       \<and> out (run start (replicate 6 (OnSuccess True Advanced))) =
            [Write \<lparr>key = KNumber 1, val = f 1\<rparr>, Write \<lparr>key = KNumber 2, val = f 2\<rparr>,
             Write \<lparr>key = KNumber 3, val = f 3\<rparr>, Write \<lparr>key = KNumber 4, val = f 4\<rparr>,
             Write \<lparr>key = KNumber 5, val = f 5\<rparr>, End]
       \<and> cursorsOpened (run start (replicate 6 (OnSuccess True Advanced))) = 1"
proof -
  let ?F = "map Write (map (\<lambda>i. \<lparr>key = KNumber i, val = f i\<rparr>) [1, 2, 3, 4, 5])"
  have start: "start = startCursor (initial (items f) ''items'' (xtend_defaults cfg))"
    using assms(3) by (simp add: idbReadableStream_def)
  have kr: "startCursor_keyRange (xtend_defaults cfg) None = None"
    using assms(1) by (simp add: startCursor_keyRange_def xtend_defaults_def empty_range_def split: option.splits)
  have dir: "\<not> backward (direction (xtend_defaults cfg))"
    using assms(2) by (auto simp: xtend_defaults_def split: option.splits)
  have w: "waiting start \<noteq> Idle" and c: "cursorsOpened start = 1"
    and p: "out start @ map Write (pending start) = ?F"
    using kr dir by (simp_all add: start startCursor_def initial_def openCursor_def items_def)
  note q = quiet_run [OF assms(4) w p]
  have a: "cursorsOpened (run start evs) = 1" using q c by simp
  have b: "prefix (out (run start evs)) (?F @ [End])"
  proof (cases "waiting (run start evs) = Idle")
    case True
    then show ?thesis using q by simp
  next
    case False
    then have "out (run start evs) @ map Write (pending (run start evs)) = ?F" using q by simp
    then have "prefix (out (run start evs)) ?F" by (metis prefixI)
    then show ?thesis using prefix_prefix by blast 
  qed
  have d: "waiting (run start evs) = Idle \<longrightarrow> out (run start evs) = ?F @ [End]" using q by simp
  have r6: "replicate 6 (OnSuccess True Advanced) = [OnSuccess True Advanced, OnSuccess True Advanced,
     OnSuccess True Advanced, OnSuccess True Advanced, OnSuccess True Advanced, OnSuccess True Advanced]"
    by (simp add: numeral_eq_Suc)
  have e: "out (run start (replicate 6 (OnSuccess True Advanced))) = ?F @ [End]
         \<and> cursorsOpened (run start (replicate 6 (OnSuccess True Advanced))) = 1"
    unfolding r6 using kr dir
    by (simp add: start run_def onsuccess_def proceed_def startCursor_def initial_def openCursor_def items_def Let_def)
  show ?thesis using a b d e by simp
qed

theorem five_items_end_to_end_witness:
  "out (run (startCursor (initial (items (\<lambda>i. i)) ''items'' (xtend_defaults empty_options)))
        [OnSuccess True Advanced, OnSuccess False Advanced, OnDrain Advanced, OnSuccess True Advanced,
         OnSuccess False Advanced, OnDrain Advanced, OnDrain Advanced, OnSuccess True Advanced,
         OnSuccess True Advanced]) =
     [Write \<lparr>key = KNumber 1, val = 1\<rparr>, Write \<lparr>key = KNumber 2, val = 2\<rparr>,
      Write \<lparr>key = KNumber 3, val = 3\<rparr>, Write \<lparr>key = KNumber 4, val = 4\<rparr>,
      Write \<lparr>key = KNumber 5, val = 5\<rparr>, End]
   \<and> cursorsOpened (run (startCursor (initial (items (\<lambda>i. i)) ''items'' (xtend_defaults empty_options)))
        [OnSuccess True Advanced, OnSuccess False Advanced, OnDrain Advanced, OnSuccess True Advanced,
         OnSuccess False Advanced, OnDrain Advanced, OnDrain Advanced, OnSuccess True Advanced,
         OnSuccess True Advanced]) = 1"
  using five_items_end_to_end
     [where cfg = empty_options and f = "\<lambda>i. i"
        and start = "startCursor (initial (items (\<lambda>i. i)) ''items'' (xtend_defaults empty_options))"
        and evs = "[OnSuccess True Advanced, OnSuccess False Advanced, OnDrain Advanced, OnSuccess True Advanced,
         OnSuccess False Advanced, OnDrain Advanced, OnDrain Advanced, OnSuccess True Advanced,
         OnSuccess True Advanced]"]
  by (simp add: run_simps items_def)

section \<open>Backpressure\<close>

text \<open>
  C5. Let a success event deliver a record. If \<^verbatim>\<open>write\<close> accepts it under capacity, the
  handler calls \<^verbatim>\<open>continue\<close> at once. If the buffer is at or over capacity, the handler
  calls nothing and waits for the drain signal; whatever events other than a drain follow,
  the number of calls of \<^verbatim>\<open>continue\<close> stays as it was; the drain signal brings exactly
  one call of \<^verbatim>\<open>continue\<close>, and further drain signals bring none.
\<close>

theorem backpressure_respected:
  assumes "waiting s = AwaitSuccess" and "pending s = r # rest"
  shows "advances (step s (OnSuccess True c)) = Suc (advances s)
       \<and> waiting (step s (OnSuccess False c)) = AwaitDrain
       \<and> advances (step s (OnSuccess False c)) = advances s
       \<and> (list_all (\<lambda>ev. \<not> is_drain ev) evs \<longrightarrow>
            advances (run (step s (OnSuccess False c)) evs) = advances s
          \<and> advances (step (run (step s (OnSuccess False c)) evs) (OnDrain c')) = Suc (advances s)
          \<and> (list_all is_drain evs' \<longrightarrow>
               advances (run (step (run (step s (OnSuccess False c)) evs) (OnDrain c')) evs')
                 = Suc (advances s)))"
proof -
  define sd where "sd = step s (OnSuccess False c)"
  have a: "advances (step s (OnSuccess True c)) = Suc (advances s)"
    using assms by (simp add: onsuccess_def advances_proceed) (simp add: advances_def)
  have b: "waiting sd = AwaitDrain" and c: "advances sd = advances s"
    using assms by (simp_all add: sd_def onsuccess_def advances_def)
  have d: "advances (run sd evs) = advances s
          \<and> advances (step (run sd evs) (OnDrain c')) = Suc (advances s)
          \<and> (list_all is_drain evs' \<longrightarrow>
               advances (run (step (run sd evs) (OnDrain c')) evs') = Suc (advances s))"
    if nd: "list_all (\<lambda>ev. \<not> is_drain ev) evs"
  proof -
    define sw where "sw = run sd evs"
    from await_drain_run [OF b nd]
    have w: "waiting sw = AwaitDrain" and k: "calls sw = calls sd"
      by (simp_all add: sw_def)
    have e: "advances sw = advances s"
      using k c by (simp add: advances_def)
    have f: "step sw (OnDrain c') = proceed c' sw"
      using w by simp
    have g: "advances (step sw (OnDrain c')) = Suc (advances s)"
      using e w by (simp add: advances_proceed)
    have h: "run (step sw (OnDrain c')) evs' = step sw (OnDrain c')"
      if "list_all is_drain evs'"
      using drains_after_drain [OF _ that, of "proceed c' sw"] waiting_proceed [of c' sw] w
      by simp
    have i: "list_all is_drain evs' \<longrightarrow> advances (run (step sw (OnDrain c')) evs') = Suc (advances s)"
      using g h by auto
    show ?thesis using e g i unfolding sw_def by (intro conjI)
  qed
  show ?thesis using a b c d unfolding sd_def by blast
qed

theorem backpressure_respected_witness:
  "advances (step (startCursor (initial (items (\<lambda>i. i)) ''items'' empty_options))
                  (OnSuccess True Advanced)) = 1
   \<and> advances (run (step (startCursor (initial (items (\<lambda>i. i)) ''items'' empty_options))
                          (OnSuccess False Advanced))
                    [OnAbort inactive, OnSuccess True Advanced, OnError inactive]) = 0
   \<and> advances (step (run (step (startCursor (initial (items (\<lambda>i. i)) ''items'' empty_options))
                                (OnSuccess False Advanced))
                          [OnAbort inactive, OnSuccess True Advanced, OnError inactive])
                     (OnDrain Advanced)) = 1
   \<and> advances (run (step (run (step (startCursor (initial (items (\<lambda>i. i)) ''items'' empty_options))
                                     (OnSuccess False Advanced))
                               [OnAbort inactive, OnSuccess True Advanced, OnError inactive])
                          (OnDrain Advanced))
                    [OnDrain Advanced, OnDrain Advanced]) = 1"
  using backpressure_respected
          [where s = "startCursor (initial (items (\<lambda>i. i)) ''items'' empty_options)"
             and r = "\<lparr>key = KNumber 1, val = 1\<rparr>"
             and rest = "map (\<lambda>i. \<lparr>key = KNumber i, val = i\<rparr>) [2, 3, 4, 5]"
             and c = Advanced and c' = Advanced
             and evs = "[OnAbort inactive, OnSuccess True Advanced, OnError inactive]"
             and evs' = "[OnDrain Advanced, OnDrain Advanced]"]
  by (simp add: startCursor_def initial_def items_def openCursor_def startCursor_keyRange_def
        empty_options_def empty_range_def advances_def)

section \<open>Failures\<close>



text \<open>
  C4, as the claim states it, fails: the handlers of a transaction's abort and error
  events do not terminate the stream. Here the abort arrives while the adapter waits for
  the drain signal; on the drain signal \<^verbatim>\<open>continue\<close> throws, a second cursor is opened and
  the record with key 2 follows the error signal.
\<close>

theorem abort_does_not_terminate_the_stream:
  "\<exists>start. idbReadableStream (JObject (items (\<lambda>i. i))) (JString ''items'') JUndefined = Inr start
       \<and> out (run start [OnSuccess False Advanced, OnAbort (DOMException ''AbortError''),
                       OnDrain (Throws inactive), OnSuccess True Advanced])
           = [Write \<lparr>key = KNumber 1, val = 1\<rparr>, EmitError (DOMException ''AbortError''),
              Write \<lparr>key = KNumber 2, val = 2\<rparr>]
       \<and> cursorsOpened (run start [OnSuccess False Advanced, OnAbort (DOMException ''AbortError''),
                       OnDrain (Throws inactive), OnSuccess True Advanced]) = 2"
  by (simp add: run_simps items_def less_idb_key_def)

text \<open>
  C4, amended. The handler of an abort or of an error event emits one error signal and
  changes nothing else, whatever \<^verbatim>\<open>reopenOnTimeout\<close> is: through any number of such
  events no cursor is opened, no call is made on the store handle, no record is written,
  and the adapter goes on waiting for what it was waiting for.
\<close>

theorem transaction_failure_emits_error_only:
  "step s (OnAbort e) = s\<lparr>out := out s @ [EmitError e]\<rparr>
   \<and> step s (OnError e) = s\<lparr>out := out s @ [EmitError e]\<rparr>
   \<and> (list_all is_tx_report evs \<longrightarrow>
        cursorsOpened (run s evs) = cursorsOpened s
      \<and> calls (run s evs) = calls s
      \<and> waiting (run s evs) = waiting s
      \<and> pending (run s evs) = pending s
      \<and> lastIteratedKey (run s evs) = lastIteratedKey s
      \<and> writes (out (run s evs)) = writes (out s)
      \<and> length (errors (out (run s evs))) = length (errors (out s)) + length evs)"
proof -
  have "list_all is_tx_report evs \<Longrightarrow>
        cursorsOpened (run s evs) = cursorsOpened s
      \<and> calls (run s evs) = calls s
      \<and> waiting (run s evs) = waiting s
      \<and> pending (run s evs) = pending s
      \<and> lastIteratedKey (run s evs) = lastIteratedKey s
      \<and> writes (out (run s evs)) = writes (out s)
      \<and> length (errors (out (run s evs))) = length (errors (out s)) + length evs"
  proof (induction evs arbitrary: s)
    case Nil
    then show ?case by (simp add: run_Nil)
  next
    case (Cons ev evs)
    then obtain x where x: "step s ev = s\<lparr>out := out s @ [EmitError x]\<rparr>"
      using tx_report_step [of ev s] by auto
    from Cons.IH [of "step s ev"] Cons.prems show ?case
      by (simp add: run_Cons x writes_append errors_append)
  qed
  then show ?thesis by (simp add: onabort_def onerror_def)
qed

theorem transaction_failure_emits_error_only_witness:
  "cursorsOpened (run (step (startCursor (initial (items (\<lambda>i. i)) ''items'' (xtend_defaults empty_options)))
                           (OnSuccess False Advanced))
                     [OnAbort (DOMException ''AbortError''), OnError (DOMException ''AbortError'')]) = 1
   \<and> waiting (run (step (startCursor (initial (items (\<lambda>i. i)) ''items'' (xtend_defaults empty_options)))
                           (OnSuccess False Advanced))
                     [OnAbort (DOMException ''AbortError''), OnError (DOMException ''AbortError'')]) = AwaitDrain
   \<and> length (errors (out (run (step (startCursor (initial (items (\<lambda>i. i)) ''items'' (xtend_defaults empty_options)))
                           (OnSuccess False Advanced))
                     [OnAbort (DOMException ''AbortError''), OnError (DOMException ''AbortError'')]))) = 2"
  using transaction_failure_emits_error_only
     [where s = "step (startCursor (initial (items (\<lambda>i. i)) ''items'' (xtend_defaults empty_options)))
                           (OnSuccess False Advanced)"
        and evs = "[OnAbort (DOMException ''AbortError''), OnError (DOMException ''AbortError'')]"]
  by (simp add: run_simps items_def)




section \<open>No loss, no duplication\<close>

text \<open>
  Where the property holds. A re-opening after a truthy key under a direction other than
  \<^verbatim>\<open>'nextunique'\<close> selects exactly the records that the cursor before it had still to
  deliver.
\<close>

lemma in_range_first_opening:
  "truthy_bounds cfg \<Longrightarrow> in_range (startCursor_keyRange cfg None) k = spec_in_range (range_opt cfg) k"
  by (auto simp: truthy_bounds_def startCursor_keyRange_def spec_in_range_def empty_range_def Let_def
           split: option.splits)

lemma in_range_reopen_forward:
  assumes "direction cfg = None \<or> direction cfg = Some Next" and "truthy K"
    and "in_range (startCursor_keyRange cfg None) K"
  shows "in_range (startCursor_keyRange cfg (Some K)) k
         = (K < k \<and> in_range (startCursor_keyRange cfg None) k)"
  using assms
  by (auto simp: startCursor_keyRange_def empty_range_def Let_def split: option.splits if_splits)

lemma in_range_reopen_backward:
  assumes "direction cfg = Some Prev \<or> direction cfg = Some PrevUnique" and "truthy K"
    and "in_range (startCursor_keyRange cfg None) K"
  shows "in_range (startCursor_keyRange cfg (Some K)) k
         = (k < K \<and> in_range (startCursor_keyRange cfg None) k)"
  using assms
  by (auto simp: startCursor_keyRange_def empty_range_def Let_def split: option.splits if_splits)

lemma filter_after_last:
  assumes "sorted_wrt R (ws @ rest)" and "ws \<noteq> []"
    and "\<And>x y. R x y \<Longrightarrow> \<not> R y x"
  shows "filter (R (last ws)) (ws @ rest) = rest"
proof -
  obtain ws' l where ws: "ws = ws' @ [l]"
    using assms(2) by (metis append_butlast_last_id)
  have irr: "\<not> R l l" using assms(3) by blast
  have before: "\<forall>x\<in>set ws'. \<not> R l x"
    using assms(1,3) by (auto simp: ws sorted_wrt_append)
  have after: "\<forall>y\<in>set rest. R l y"
    using assms(1) by (auto simp: ws sorted_wrt_append)
  have "filter (R l) ws' = []" using before by (simp add: filter_empty_conv)
  moreover have "filter (R l) rest = rest" using after by (simp add: filter_id_conv)
  ultimately show ?thesis using irr by (simp add: ws)
qed


lemma reopen_resumes:
  fixes st :: "'v entry list"
  assumes ok: "store_ok st" and tr: "list_all (\<lambda>r. truthy (key r)) st"
    and dir: "direction cfg \<noteq> Some NextUnique"
    and full: "openCursor st (startCursor_keyRange cfg None) (direction cfg) = ws @ rest"
    and ne: "ws \<noteq> []"
  shows "openCursor st (startCursor_keyRange cfg (Some (key (last ws)))) (direction cfg) = rest"
proof -
  let ?kr = "startCursor_keyRange cfg None"
  let ?K = "key (last ws)"
  let ?sel = "filter (\<lambda>r. in_range ?kr (key r)) st"
  have srt: "sorted_wrt (\<lambda>a b. key a < key b) ?sel"
    using ok by (simp add: store_ok_def sorted_wrt_map sorted_wrt_filter)
  have mem: "last ws \<in> set ?sel"
  proof -
    have "last ws \<in> set (ws @ rest)" using ne by simp
    moreover have "set (openCursor st ?kr (direction cfg)) = set ?sel"
      by (simp add: openCursor_def Let_def)
    ultimately show ?thesis unfolding full by blast
  qed
  then have inr: "in_range ?kr ?K" and tK: "truthy ?K"
    using tr by (auto simp: list_all_iff)
  show ?thesis
  proof (cases "backward (direction cfg)")
    case False
    then have d: "direction cfg = None \<or> direction cfg = Some Next"
      using dir by (cases "direction cfg" rule: backward.cases) simp_all
    have sel: "?sel = ws @ rest" using full False by (simp add: openCursor_def Let_def)
    have "filter (\<lambda>r. in_range (startCursor_keyRange cfg (Some ?K)) (key r)) st
          = filter (\<lambda>r. key (last ws) < key r) ?sel"
      by (simp add: in_range_reopen_forward [OF d tK inr] conj_commute)
    also have "\<dots> = rest"
      using filter_after_last [of "\<lambda>a b. key a < key b" ws rest] srt ne
      by (simp add: sel)
    finally show ?thesis using False by (simp add: openCursor_def Let_def)
  next
    case True
    then have d: "direction cfg = Some Prev \<or> direction cfg = Some PrevUnique"
      by (cases "direction cfg" rule: backward.cases) simp_all
    have sel: "rev ?sel = ws @ rest" using full True by (simp add: openCursor_def Let_def)
    have srt': "sorted_wrt (\<lambda>a b. key b < key a) (ws @ rest)"
      using srt by (simp add: sel [symmetric] sorted_wrt_rev)
    have "rev (filter (\<lambda>r. in_range (startCursor_keyRange cfg (Some ?K)) (key r)) st)
          = filter (\<lambda>r. key r < key (last ws)) (rev ?sel)"
      by (simp add: in_range_reopen_backward [OF d tK inr] conj_commute rev_filter)
    also have "\<dots> = rest"
      using filter_after_last [of "\<lambda>a b. key b < key a" ws rest] srt' ne
      by (simp add: sel)
    finally show ?thesis using True by (simp add: openCursor_def Let_def)
  qed
qed


lemma on_track_proceed:
  fixes st :: "'v entry list"
  assumes ok: "store_ok st" and tr: "list_all (\<lambda>r. truthy (key r)) st"
    and dir: "direction cfg \<noteq> Some NextUnique"
    and inv: "on_track st cfg s" and w: "waiting s \<noteq> Idle"
  shows "on_track st cfg (proceed c s)"
proof (cases c)
  case Advanced
  then show ?thesis using inv w by (simp add: proceed_def on_track_def)
next
  case (Throws err)
  let ?full = "openCursor st (startCursor_keyRange cfg None) (direction cfg)"
  have full: "?full = writes (out s) @ pending s" using inv w by (simp add: on_track_def)
  show ?thesis
  proof (cases "err_name err = ''TransactionInactiveError'' \<and> reopenOnTimeout (opts s) = Some True")
    case False
    then show ?thesis using inv by (auto simp: Throws proceed_def on_track_def writes_append)
  next
    case True
    have again: "openCursor st (startCursor_keyRange cfg (lastIteratedKey s)) (direction cfg) = pending s"
    proof (cases "writes (out s) = []")
      case True
      then show ?thesis using inv full by (simp add: on_track_def)
    next
      case False
      then have "lastIteratedKey s = Some (key (last (writes (out s))))"
        using inv by (simp add: on_track_def)
      then show ?thesis using reopen_resumes [OF ok tr dir full False] by simp
    qed
    have "proceed c s = startCursor (s\<lparr>calls := calls s @ [Continue]\<rparr>)"
      using True by (simp add: Throws proceed_def)
    then show ?thesis using inv again full
      by (simp add: startCursor_def on_track_def Let_def)
  qed
qed

lemma on_track_step:
  fixes st :: "'v entry list"
  assumes ok: "store_ok st" and tr: "list_all (\<lambda>r. truthy (key r)) st"
    and dir: "direction cfg \<noteq> Some NextUnique"
    and inv: "on_track st cfg s"
  shows "on_track st cfg (step s ev)"
proof (cases ev)
  case (OnSuccess accepted c)
  show ?thesis
  proof (cases "waiting s = AwaitSuccess")
    case False
    then show ?thesis using inv by (simp add: OnSuccess)
  next
    case True
    show ?thesis
    proof (cases "pending s")
      case Nil
      then show ?thesis using inv True
        by (simp add: OnSuccess onsuccess_def on_track_def writes_append)
    next
      case (Cons r rest)
      define s1 where "s1 = s\<lparr>lastIteratedKey := Some (key r), out := out s @ [Write r], pending := rest\<rparr>"
      have full: "writes (out s) @ r # rest = openCursor st (startCursor_keyRange cfg None) (direction cfg)"
        using inv True Cons by (simp add: on_track_def)
      have noend: "End \<notin> set (out s)"
        using inv full by (auto simp: on_track_def)
      have inv1: "on_track st cfg s1"
        using inv True noend full [symmetric]
        by (simp add: s1_def on_track_def writes_append)
      have w1: "waiting s1 \<noteq> Idle" using True by (simp add: s1_def)
      have "step s ev = (if accepted then proceed c s1 else s1\<lparr>waiting := AwaitDrain\<rparr>)"
        using True Cons by (simp add: OnSuccess onsuccess_def s1_def Let_def)
      moreover have "on_track st cfg (proceed c s1)"
        using on_track_proceed [OF ok tr dir inv1 w1] .
      moreover have "on_track st cfg (s1\<lparr>waiting := AwaitDrain\<rparr>)"
        using inv1 w1 by (simp add: on_track_def)
      ultimately show ?thesis by simp
    qed
  qed
next
  case (OnDrain c)
  show ?thesis
  proof (cases "waiting s = AwaitDrain")
    case True
    then have "waiting s \<noteq> Idle" by simp
    from on_track_proceed [OF ok tr dir inv this] True show ?thesis by (simp add: OnDrain)
  next
    case False
    then show ?thesis using inv by (simp add: OnDrain)
  qed
next
  case (OnAbort e)
  then show ?thesis using inv by (simp add: onabort_def on_track_def writes_append)
next
  case (OnError e)
  then show ?thesis using inv by (simp add: onerror_def on_track_def writes_append)
qed

lemma on_track_run:
  fixes st :: "'v entry list"
  assumes "store_ok st" and "list_all (\<lambda>r. truthy (key r)) st"
    and "direction cfg \<noteq> Some NextUnique"
    and "on_track st cfg s"
  shows "on_track st cfg (run s evs)"
  using assms(4)
proof (induction evs arbitrary: s)
  case Nil
  then show ?case by (simp add: run_Nil)
next
  case (Cons ev evs)
  from Cons.IH [OF on_track_step [OF assms(1-3) Cons.prems]] show ?case
    by (simp add: run_Cons)
qed

lemma on_track_start: "on_track (d n) cfg (startCursor (initial d n cfg))"
  by (simp add: on_track_def startCursor_def initial_def Let_def)

lemma distinct_keys_openCursor:
  "store_ok st \<Longrightarrow> distinct (map key (openCursor st kr dir))"
proof -
  assume "store_ok st"
  then have "distinct (map key st)"
    by (simp add: store_ok_def strict_sorted_iff)
  then have "distinct (map key (filter (\<lambda>r. in_range kr (key r)) st))"
    by (simp add: distinct_map_filter)
  then show ?thesis
    by (simp add: openCursor_def Let_def rev_map [symmetric])
qed

text \<open>
  If every key of the store and every configured bound is truthy and the direction is not
  \<^verbatim>\<open>'nextunique'\<close>, then in every run, whatever fails and however often the cursor is
  re-opened, the records written downstream are an initial part of the records of the
  configured range in the configured direction, no key is written twice, and a stream that
  has ended has written all of them.
\<close>

lemma no_loss_no_duplication_next_prev:
  fixes d :: "'v database"
  assumes ok: "store_ok (d n)" and tr: "list_all (\<lambda>r. truthy (key r)) (d n)"
    and dir: "direction cfg \<noteq> Some NextUnique"
    and tb: "truthy_bounds cfg"
    and start: "idbReadableStream (JObject d) (JString n) (JObject cfg) = Inr start"
  shows "prefix (writes (out (run start evs))) (spec_expected (d n) cfg)
       \<and> (End \<in> set (out (run start evs)) \<longrightarrow> writes (out (run start evs)) = spec_expected (d n) cfg)
       \<and> distinct (map key (writes (out (run start evs))))"
proof -
  let ?cfg = "xtend_defaults cfg"
  have s: "start = startCursor (initial d n ?cfg)"
    using start by (simp add: idbReadableStream_def)
  have dir': "direction ?cfg \<noteq> Some NextUnique"
    using dir by (simp add: xtend_defaults_def split: option.splits)
  have same: "openCursor (d n) (startCursor_keyRange ?cfg None) (direction ?cfg) = spec_expected (d n) cfg"
  proof -
    have eq: "range_opt ?cfg = range_opt cfg" "direction ?cfg = direction cfg"
      by (simp_all add: xtend_defaults_def split: option.splits)
    have "truthy_bounds ?cfg"
      using tb unfolding truthy_bounds_def eq .
    then show ?thesis using eq
      by (simp add: openCursor_def spec_expected_def in_range_first_opening Let_def)
  qed
  have inv: "on_track (d n) ?cfg (run start evs)"
    unfolding s using on_track_run [OF ok tr dir' on_track_start [of d n ?cfg]] .
  have p: "prefix (writes (out (run start evs))) (spec_expected (d n) cfg)"
    and e: "End \<in> set (out (run start evs)) \<longrightarrow> writes (out (run start evs)) = spec_expected (d n) cfg"
    using inv by (simp_all add: on_track_def same)
  have "distinct (map key (spec_expected (d n) cfg))"
    using distinct_keys_openCursor [OF ok] same by metis
  then have "distinct (map key (writes (out (run start evs))))"
    using p by (auto elim!: prefixE)
  then show ?thesis using p e by simp
qed

text \<open>
  C1. Two runs on a stable store in which the keys that go downstream are not the keys of
  the configured range, each once. Under \<^verbatim>\<open>'nextunique'\<close>, with the keys 1 to 5 in the
  store, a timeout after key 2 makes the second cursor start again below 2: key 1 goes
  downstream twice and the keys 3, 4 and 5 never, and the stream ends. With the keys 0 and
  1 in the store and no options, a timeout after key 0 makes the second cursor start from
  the beginning, since \<^verbatim>\<open>lastIteratedKey\<close> is falsy at line 76: key 0 goes downstream twice.
\<close>

theorem reopen_repeats_and_loses_records:
  "(\<exists>start. idbReadableStream (JObject (items f)) (JString ''items'')
               (JObject (empty_options\<lparr>direction := Some NextUnique\<rparr>)) = Inr start
         \<and> out (run start [OnSuccess True Advanced, OnSuccess False Advanced, OnDrain (Throws inactive),
                         OnSuccess True Advanced, OnSuccess True Advanced])
             = [Write \<lparr>key = KNumber 1, val = f 1\<rparr>, Write \<lparr>key = KNumber 2, val = f 2\<rparr>,
                Write \<lparr>key = KNumber 1, val = f 1\<rparr>, End])
   \<and> map key (spec_expected (items f ''items'') (empty_options\<lparr>direction := Some NextUnique\<rparr>))
       = [KNumber 1, KNumber 2, KNumber 3, KNumber 4, KNumber 5]
   \<and> (\<exists>start. idbReadableStream (JObject (items_from_zero f)) (JString ''items'') JUndefined = Inr start
         \<and> out (run start [OnSuccess False Advanced, OnDrain (Throws inactive), OnSuccess True Advanced])
             = [Write \<lparr>key = KNumber 0, val = f 0\<rparr>, Write \<lparr>key = KNumber 0, val = f 0\<rparr>])
   \<and> map key (spec_expected (items_from_zero f ''items'') empty_options) = [KNumber 0, KNumber 1]"
  by (simp add: run_simps items_def items_from_zero_def spec_expected_def spec_in_range_def)

end
